theory Spec2Isabelle
  imports Complex_Main "HOL-Library.AList" "HOL-Library.Char_ord" "HOL-Library.List_Lexorder"
begin

section \<open>Aggregated statistics: count, mean, var, cov (src/tea_tasting/aggr.py)\<close>

text \<open>
  The module keeps, for one sample, an optional sample size and three dictionaries: the
  sample means and sample variances by variable name and the sample covariances by pair
  of variable names.  The embedding follows the Python source function by function.

  \<^item> Numbers (\<open>float | int\<close> in the source) are exact rationals; the sample size is an
    unbounded integer.  Rounding of floating-point arithmetic is outside the model.
  \<^item> A raised exception is a value \<open>Inl e\<close>; the three kinds the module can raise are
    \<open>RuntimeError\<close> (count is None), \<open>KeyError\<close> (dictionary miss) and
    \<open>ZeroDivisionError\<close> (the operator \<open>/\<close> with a zero divisor).
  \<^item> A \<open>dict\<close> is an association list with distinct keys in insertion order, since the
    comprehensions of \<open>__add__\<close> iterate over the keys in that order and stop at the
    first exception.
\<close>

subsection \<open>Exceptions\<close>

datatype error = RuntimeError | KeyError | ZeroDivisionError

type_synonym 'a result = "error + 'a"

definition bindE :: "'a result \<Rightarrow> ('a \<Rightarrow> 'b result) \<Rightarrow> 'b result" where
  "bindE m f = (case m of Inl e \<Rightarrow> Inl e | Inr v \<Rightarrow> f v)"

text \<open>The operator \<open>/\<close> of Python: true division, raising on a zero divisor.\<close>

definition truediv :: "rat \<Rightarrow> rat \<Rightarrow> rat result" where
  "truediv x y = (if y = 0 then Inl ZeroDivisionError else Inr (x / y))"

subsection \<open>Dictionaries\<close>

type_synonym ('k, 'v) dict = "('k \<times> 'v) list"

definition keys :: "('k, 'v) dict \<Rightarrow> 'k list" where
  "keys d = map fst d"

text \<open>\<open>d[k]\<close>: the value stored under \<open>k\<close>, or \<open>KeyError\<close>.\<close>

definition getitem :: "('k, 'v) dict \<Rightarrow> 'k \<Rightarrow> 'v result" where
  "getitem d k = (case map_of d k of None \<Rightarrow> Inl KeyError | Some v \<Rightarrow> Inr v)"

text \<open>
  \<open>d[k] = v\<close>: a new key is appended, a key already present keeps its position and gets
  the new value.
\<close>

definition setitem :: "('k, 'v) dict \<Rightarrow> 'k \<Rightarrow> 'v \<Rightarrow> ('k, 'v) dict" where
  "setitem d k v = AList.update k v d"

text \<open>
  The dictionary comprehension \<open>{k: f(k) for k in ks}\<close>, run from the dictionary \<open>d\<close>
  built so far: the keys are visited in order and the first exception of \<open>f\<close> ends
  the comprehension.
\<close>

fun dict_comp :: "('k \<Rightarrow> 'v result) \<Rightarrow> 'k list \<Rightarrow> ('k, 'v) dict \<Rightarrow> ('k, 'v) dict result" where
  "dict_comp f [] d = Inr d"
| "dict_comp f (k # ks) d =
     (case f k of Inl e \<Rightarrow> Inl e | Inr v \<Rightarrow> dict_comp f ks (setitem d k v))"

text \<open>
  \<open>tuple({...})\<close>: the distinct elements of a collection, as a tuple.  Python leaves the
  iteration order of a set unspecified; the model fixes one order, the same for the same
  elements.  Every exception raised while iterating over such a tuple is a \<open>KeyError\<close>,
  so the order decides neither which exception is raised nor which items the dictionary
  built from the tuple holds.
\<close>

definition tuple_of_set :: "'a list \<Rightarrow> 'a list" where
  "tuple_of_set xs = remdups xs"

text \<open>\<open>itertools.chain(*cov_cols)\<close>: the components of the pairs, in order.\<close>

definition chain :: "('a \<times> 'a) list \<Rightarrow> 'a list" where
  "chain ps = concat (map (\<lambda>(l, r). [l, r]) ps)"

subsection \<open>Canonical pairs\<close>

text \<open>
  Modelled from the spec: \<open>tea_tasting._utils.sorted_tuple\<close> is not part of the source
  file.  The specification says that a pair of variable names ``is stored in a canonical
  order (e.g., lexicographically sorted) so \<open>(a,b)\<close> and \<open>(b,a)\<close> resolve to the
  same entry''.  Strings are compared as Python compares them, character by character.
\<close>

definition sorted_tuple :: "string \<Rightarrow> string \<Rightarrow> string \<times> string" where
  "sorted_tuple left right = (if right < left then (right, left) else (left, right))"

subsection \<open>The class \<open>Aggregates\<close>\<close>

record Aggregates =
  count_attr :: "int option"
  mean_attr :: "(string, rat) dict"
  var_attr :: "(string, rat) dict"
  cov_attr :: "(string \<times> string, rat) dict"

text \<open>
  \<open>__init__\<close>: the covariance dictionary is rebuilt under canonical keys, one item of
  the given dictionary after the other.
\<close>

abbreviation (input) init_step ::
  "(string \<times> string, rat) dict \<Rightarrow> (string \<times> string) \<times> rat \<Rightarrow> (string \<times> string, rat) dict" where
  "init_step \<equiv> (\<lambda>d ((left, right), x). setitem d (sorted_tuple left right) x)"

definition aggr_init ::
  "int option \<Rightarrow> (string, rat) dict \<Rightarrow> (string, rat) dict \<Rightarrow> (string \<times> string, rat) dict
     \<Rightarrow> Aggregates" where
  "aggr_init c m v cv =
     \<lparr>count_attr = c, mean_attr = m, var_attr = v,
      cov_attr = foldl init_step [] cv\<rparr>"

definition count :: "Aggregates \<Rightarrow> int result" where
  "count s = (case count_attr s of None \<Rightarrow> Inl RuntimeError | Some n \<Rightarrow> Inr n)"

definition mean :: "Aggregates \<Rightarrow> string option \<Rightarrow> rat result" where
  "mean s key = (case key of None \<Rightarrow> Inr 1 | Some k \<Rightarrow> getitem (mean_attr s) k)"

definition var :: "Aggregates \<Rightarrow> string option \<Rightarrow> rat result" where
  "var s key = (case key of None \<Rightarrow> Inr 0 | Some k \<Rightarrow> getitem (var_attr s) k)"

definition cov :: "Aggregates \<Rightarrow> string option \<Rightarrow> string option \<Rightarrow> rat result" where
  "cov s left right =
     (if left = None \<or> right = None then Inr 0
      else getitem (cov_attr s) (sorted_tuple (the left) (the right)))"


subsection \<open>\<open>_validate_aggr_cols\<close> and \<open>filter\<close>\<close>

definition validate_aggr_cols ::
  "bool \<Rightarrow> string list \<Rightarrow> string list \<Rightarrow> (string \<times> string) list
     \<Rightarrow> bool \<times> string list \<times> string list \<times> (string \<times> string) list" where
  "validate_aggr_cols has_count mean_cols var_cols cov_cols =
     (has_count \<or> length var_cols > 0 \<or> length cov_cols > 0,
      tuple_of_set (mean_cols @ var_cols @ chain cov_cols),
      tuple_of_set var_cols,
      tuple_of_set (map (\<lambda>(left, right). sorted_tuple left right) cov_cols))"

definition aggr_filter ::
  "Aggregates \<Rightarrow> bool \<Rightarrow> string list \<Rightarrow> string list \<Rightarrow> (string \<times> string) list
     \<Rightarrow> Aggregates result" where
  "aggr_filter s has_count mean_cols var_cols cov_cols =
     (case validate_aggr_cols has_count mean_cols var_cols cov_cols of
        (has_count', mean_cols', var_cols', cov_cols') \<Rightarrow>
          bindE (if has_count' then bindE (count s) (\<lambda>n. Inr (Some n)) else Inr None) (\<lambda>c.
          bindE (dict_comp (\<lambda>col. mean s (Some col)) mean_cols' []) (\<lambda>m.
          bindE (dict_comp (\<lambda>col. var s (Some col)) var_cols' []) (\<lambda>v.
          bindE (dict_comp (\<lambda>cols. cov s (Some (fst cols)) (Some (snd cols))) cov_cols' [])
            (\<lambda>cv. Inr (aggr_init c m v cv))))))"

subsection \<open>\<open>__add__\<close> and its helpers\<close>

definition add_mean :: "Aggregates \<Rightarrow> Aggregates \<Rightarrow> string \<Rightarrow> rat result" where
  "add_mean left right col =
     bindE (count left) (\<lambda>ln.
     bindE (mean left (Some col)) (\<lambda>lm.
     bindE (count right) (\<lambda>rn.
     bindE (mean right (Some col)) (\<lambda>rm.
     let sum = of_int ln * lm + of_int rn * rm in
     bindE (count left) (\<lambda>ln'.
     bindE (count right) (\<lambda>rn'.
     let cnt = ln' + rn' in
     truediv sum (of_int cnt)))))))"

definition add_var :: "Aggregates \<Rightarrow> Aggregates \<Rightarrow> string \<Rightarrow> rat result" where
  "add_var left right col =
     bindE (count left) (\<lambda>left_n.
     bindE (count right) (\<lambda>right_n.
     let total_n = left_n + right_n in
     bindE (mean left (Some col)) (\<lambda>lm.
     bindE (mean right (Some col)) (\<lambda>rm.
     let diff_of_means = lm - rm in
     bindE (var left (Some col)) (\<lambda>lv.
     bindE (var right (Some col)) (\<lambda>rv.
     bindE (truediv (diff_of_means * diff_of_means * of_int left_n * of_int right_n)
              (of_int total_n)) (\<lambda>t3.
     truediv (lv * of_int (left_n - 1) + rv * of_int (right_n - 1) + t3)
       (of_int (total_n - 1)))))))))"

definition add_cov :: "Aggregates \<Rightarrow> Aggregates \<Rightarrow> string \<times> string \<Rightarrow> rat result" where
  "add_cov left right cols =
     bindE (count left) (\<lambda>left_n.
     bindE (count right) (\<lambda>right_n.
     let total_n = left_n + right_n in
     bindE (mean left (Some (fst cols))) (\<lambda>lm0.
     bindE (mean right (Some (fst cols))) (\<lambda>rm0.
     let diff_of_means0 = lm0 - rm0 in
     bindE (mean left (Some (snd cols))) (\<lambda>lm1.
     bindE (mean right (Some (snd cols))) (\<lambda>rm1.
     let diff_of_means1 = lm1 - rm1 in
     bindE (cov left (Some (fst cols)) (Some (snd cols))) (\<lambda>lc.
     bindE (cov right (Some (fst cols)) (Some (snd cols))) (\<lambda>rc.
     bindE (truediv (diff_of_means0 * diff_of_means1 * of_int left_n * of_int right_n)
              (of_int total_n)) (\<lambda>t3.
     truediv (lc * of_int (left_n - 1) + rc * of_int (right_n - 1) + t3)
       (of_int (total_n - 1)))))))))))"

definition aggr_add :: "Aggregates \<Rightarrow> Aggregates \<Rightarrow> Aggregates result" where
  "aggr_add self other =
     bindE (if count_attr self \<noteq> None
            then bindE (count self) (\<lambda>n1. bindE (count other) (\<lambda>n2. Inr (Some (n1 + n2))))
            else Inr None) (\<lambda>c.
     bindE (dict_comp (add_mean self other) (keys (mean_attr self)) []) (\<lambda>m.
     bindE (dict_comp (add_var self other) (keys (var_attr self)) []) (\<lambda>v.
     bindE (dict_comp (add_cov self other) (keys (cov_attr self)) []) (\<lambda>cv.
     Inr (aggr_init c m v cv)))))"

subsection \<open>Predicates and functions used to state the properties\<close>

text \<open>
  The entries of a dictionary under the keys \<open>ks\<close>, in the order of \<open>ks\<close>; it is only
  used where every key of \<open>ks\<close> is present.
\<close>

definition select :: "('k, 'v) dict \<Rightarrow> 'k list \<Rightarrow> ('k, 'v) dict" where
  "select d ks = map (\<lambda>k. (k, the (map_of d k))) ks"

text \<open>
  The keys of a covariance dictionary are canonical: no key occurs twice, every key is a
  sorted pair, and no two keys denote the same unordered pair.
\<close>

definition canonical_keys :: "(string \<times> string, rat) dict \<Rightarrow> bool" where
  "canonical_keys d \<longleftrightarrow>
     distinct (keys d) \<and> (\<forall>p\<in>set (keys d). fst p \<le> snd p) \<and>
     (\<forall>p\<in>set (keys d). \<forall>q\<in>set (keys d). {fst p, snd p} = {fst q, snd q} \<longrightarrow> p = q)"

text \<open>
  Equality of dictionaries as Python's \<open>==\<close> decides it: the same items, whatever the
  insertion order.  Two stores are equal when their counts and their three dictionaries
  are.
\<close>

definition dict_eq :: "('k, 'v) dict \<Rightarrow> ('k, 'v) dict \<Rightarrow> bool" where
  "dict_eq d e \<longleftrightarrow> set d = set e"

definition aggr_eq :: "Aggregates \<Rightarrow> Aggregates \<Rightarrow> bool" where
  "aggr_eq a b \<longleftrightarrow>
     count_attr a = count_attr b \<and> dict_eq (mean_attr a) (mean_attr b) \<and>
     dict_eq (var_attr a) (var_attr b) \<and> dict_eq (cov_attr a) (cov_attr b)"

text \<open>
  What the constructor and Python's dictionaries guarantee of a store: the keys of each
  dictionary are distinct and the covariance keys are canonical.
\<close>

definition well_formed :: "Aggregates \<Rightarrow> bool" where
  "well_formed a \<longleftrightarrow>
     distinct (keys (mean_attr a)) \<and> distinct (keys (var_attr a)) \<and>
     canonical_keys (cov_attr a)"

text \<open>
  Every variable with a variance or a covariance has a mean (an invariant of the data
  model that the constructor does not enforce).
\<close>

definition covered :: "Aggregates \<Rightarrow> bool" where
  "covered a \<longleftrightarrow>
     set (keys (var_attr a)) \<subseteq> set (keys (mean_attr a)) \<and>
     set (chain (keys (cov_attr a))) \<subseteq> set (keys (mean_attr a))"

text \<open>
  The precondition of a merge: two stores with the same keys, both with a count of at
  least 2.
\<close>

definition merge_pre :: "Aggregates \<Rightarrow> Aggregates \<Rightarrow> bool" where
  "merge_pre a b \<longleftrightarrow>
     well_formed a \<and> well_formed b \<and>
     set (keys (mean_attr a)) = set (keys (mean_attr b)) \<and>
     set (keys (var_attr a)) = set (keys (var_attr b)) \<and>
     set (keys (cov_attr a)) = set (keys (cov_attr b)) \<and>
     (case (count_attr a, count_attr b) of
        (Some n1, Some n2) \<Rightarrow> 2 \<le> n1 \<and> 2 \<le> n2
      | _ \<Rightarrow> False)"

text \<open>
  The formulas of the merge as the specification writes them (section 4.4), with
  \<open>N = n1 + n2\<close>, and the store they describe.  They are compared with \<open>__add__\<close>
  below.
\<close>

definition val :: "('k, 'v) dict \<Rightarrow> 'k \<Rightarrow> 'v" where
  "val d k = the (map_of d k)"

definition spec_mean :: "int \<Rightarrow> int \<Rightarrow> rat \<Rightarrow> rat \<Rightarrow> rat" where
  "spec_mean n1 n2 m1 m2 = (of_int n1 * m1 + of_int n2 * m2) / of_int (n1 + n2)"

definition spec_variance :: "int \<Rightarrow> int \<Rightarrow> rat \<Rightarrow> rat \<Rightarrow> rat \<Rightarrow> rat \<Rightarrow> rat" where
  "spec_variance n1 n2 v1 v2 m1 m2 =
     (v1 * (of_int n1 - 1) + v2 * (of_int n2 - 1)
        + (m1 - m2)\<^sup>2 * of_int n1 * of_int n2 / of_int (n1 + n2))
     / (of_int (n1 + n2) - 1)"

definition spec_covariance ::
  "int \<Rightarrow> int \<Rightarrow> rat \<Rightarrow> rat \<Rightarrow> rat \<Rightarrow> rat \<Rightarrow> rat \<Rightarrow> rat \<Rightarrow> rat" where
  "spec_covariance n1 n2 c1 c2 ma1 ma2 mb1 mb2 =
     (c1 * (of_int n1 - 1) + c2 * (of_int n2 - 1)
        + (ma1 - ma2) * (mb1 - mb2) * of_int n1 * of_int n2 / of_int (n1 + n2))
     / (of_int (n1 + n2) - 1)"

definition merged_mean :: "Aggregates \<Rightarrow> Aggregates \<Rightarrow> string \<Rightarrow> rat" where
  "merged_mean a b k =
     spec_mean (the (count_attr a)) (the (count_attr b))
       (val (mean_attr a) k) (val (mean_attr b) k)"

definition merged_var :: "Aggregates \<Rightarrow> Aggregates \<Rightarrow> string \<Rightarrow> rat" where
  "merged_var a b k =
     spec_variance (the (count_attr a)) (the (count_attr b))
       (val (var_attr a) k) (val (var_attr b) k) (val (mean_attr a) k) (val (mean_attr b) k)"

definition merged_cov :: "Aggregates \<Rightarrow> Aggregates \<Rightarrow> string \<times> string \<Rightarrow> rat" where
  "merged_cov a b k =
     spec_covariance (the (count_attr a)) (the (count_attr b))
       (val (cov_attr a) k) (val (cov_attr b) k)
       (val (mean_attr a) (fst k)) (val (mean_attr b) (fst k))
       (val (mean_attr a) (snd k)) (val (mean_attr b) (snd k))"

definition spec_merge :: "Aggregates \<Rightarrow> Aggregates \<Rightarrow> Aggregates" where
  "spec_merge a b =
     \<lparr>count_attr = Some (the (count_attr a) + the (count_attr b)),
      mean_attr = map (\<lambda>k. (k, merged_mean a b k)) (keys (mean_attr a)),
      var_attr = map (\<lambda>k. (k, merged_var a b k)) (keys (var_attr a)),
      cov_attr = map (\<lambda>k. (k, merged_cov a b k)) (keys (cov_attr a))\<rparr>"

text \<open>
  The statistics of one column of an ungrouped sample, following the expressions that
  \<open>read_aggregates\<close> hands to the backend: \<open>data[col].mean()\<close>, and the sum of the
  squares of \<open>data[col] - data[col].mean()\<close> over \<open>data.count() - 1\<close>.  The backend's
  \<open>mean\<close>, \<open>sum\<close> and \<open>count\<close> are read as the arithmetic mean, sum and length of
  the column.
\<close>

definition sample_mean :: "rat list \<Rightarrow> rat" where
  "sample_mean xs = sum_list xs / of_nat (length xs)"

definition sample_var :: "rat list \<Rightarrow> rat" where
  "sample_var xs =
     sum_list (map (\<lambda>x. (x - sample_mean xs) * (x - sample_mean xs)) xs)
       / (of_nat (length xs) - 1)"

subsection \<open>The stores of the scenarios\<close>

text \<open>
  The store of the ratio scenario, the stores of the samples \<open>[1,2,3]\<close> and
  \<open>[4,5,6,7]\<close> of the variable \<open>x\<close>, and two stores with two variables, the second
  one given its covariance under the key \<open>(y, x)\<close>.
\<close>

definition scenario_store :: Aggregates where
  "scenario_store =
     aggr_init (Some 10) [(''x'', 2), (''y'', 4)] [(''x'', 1), (''y'', 2)]
       [((''x'', ''y''), 1 / 2)]"

definition sample_a_store :: Aggregates where
  "sample_a_store = aggr_init (Some 3) [(''x'', 2)] [(''x'', 1)] []"

definition sample_b_store :: Aggregates where
  "sample_b_store = aggr_init (Some 4) [(''x'', 11 / 2)] [(''x'', 5 / 3)] []"

definition pair_a_store :: Aggregates where
  "pair_a_store =
     aggr_init (Some 3) [(''x'', 2), (''y'', 2)] [(''x'', 1), (''y'', 1)]
       [((''x'', ''y''), 1 / 2)]"

definition pair_b_store :: Aggregates where
  "pair_b_store =
     aggr_init (Some 4) [(''y'', 2), (''x'', 11 / 2)] [(''y'', 4 / 3), (''x'', 5 / 3)]
       [((''y'', ''x''), 4 / 3)]"

section \<open>Properties\<close>

subsection \<open>Exceptions and dictionaries\<close>

lemmas store_defs = scenario_store_def sample_a_store_def sample_b_store_def
  pair_a_store_def pair_b_store_def aggr_init_def setitem_def sorted_tuple_def

lemmas accessor_defs = count_def mean_def var_def cov_def getitem_def

lemma bindE_simps [simp]:
  "bindE (Inl e) f = Inl e" "bindE (Inr v) f = f v"
  by (simp_all add: bindE_def)

lemma setitem_fresh: "k \<notin> fst ` set d \<Longrightarrow> setitem d k v = d @ [(k, v)]"
  by (induction d) (auto simp: setitem_def)

lemma setitem_keys: "fst ` set (setitem d k v) = insert k (fst ` set d)"
  by (simp add: setitem_def dom_update)

lemma setitem_distinct: "distinct (map fst d) \<Longrightarrow> distinct (map fst (setitem d k v))"
  by (simp add: setitem_def distinct_update)

lemma dict_comp_distinct:
  "distinct ks \<Longrightarrow> set ks \<inter> fst ` set d = {} \<Longrightarrow> \<forall>k\<in>set ks. f k = Inr (g k)
    \<Longrightarrow> dict_comp f ks d = Inr (d @ map (\<lambda>k. (k, g k)) ks)"
proof (induction ks arbitrary: d)
  case Nil
  then show ?case by simp
next
  case (Cons k ks)
  have fresh: "k \<notin> fst ` set d" using Cons.prems(2) by auto
  have step: "setitem d k (g k) = d @ [(k, g k)]" by (rule setitem_fresh [OF fresh])
  have disj: "set ks \<inter> fst ` set (d @ [(k, g k)]) = {}"
    using Cons.prems(1,2) by auto
  have "dict_comp f ks (d @ [(k, g k)]) = Inr ((d @ [(k, g k)]) @ map (\<lambda>k. (k, g k)) ks)"
    using Cons.IH [OF _ disj] Cons.prems(1,3) by simp
  then show ?case using Cons.prems(3) step by simp
qed

lemma dict_comp_error:
  "\<forall>k\<in>set ks. f k = Inl e \<or> (\<exists>v. f k = Inr v) \<Longrightarrow> \<exists>k\<in>set ks. f k = Inl e
    \<Longrightarrow> dict_comp f ks d = Inl e"
proof (induction ks arbitrary: d)
  case Nil
  then show ?case by simp
next
  case (Cons k ks)
  show ?case
  proof (cases "f k")
    case (Inl e')
    then show ?thesis using Cons.prems(1) by auto
  next
    case (Inr v)
    then have "\<exists>k\<in>set ks. f k = Inl e" using Cons.prems(2) by auto
    then show ?thesis using Cons.IH Cons.prems(1) Inr by simp
  qed
qed

lemma init_fold_distinct:
  "distinct (map fst d) \<Longrightarrow> distinct (map fst (foldl init_step d cv))"
  by (induction cv arbitrary: d) (auto simp: setitem_distinct split: prod.splits)

lemma init_fold_keys:
  "fst ` set (foldl init_step d cv) = fst ` set d \<union> (\<lambda>p. sorted_tuple (fst p) (snd p)) ` fst ` set cv"
proof (induction cv arbitrary: d)
  case Nil
  then show ?case by simp
next
  case (Cons e cv)
  obtain l r x where e: "e = ((l, r), x)" by (metis prod.collapse)
  have step: "fst ` set (init_step d e) = insert (sorted_tuple l r) (fst ` set d)"
    by (simp add: e setitem_keys)
  have "fst ` set (foldl init_step (init_step d e) cv) =
      fst ` set (init_step d e) \<union> (\<lambda>p. sorted_tuple (fst p) (snd p)) ` fst ` set cv"
    by (rule Cons.IH)
  then show ?case unfolding step by (simp add: e)
qed

lemma init_fold_canonical:
  "distinct (map fst cv) \<Longrightarrow> \<forall>p\<in>fst ` set cv. sorted_tuple (fst p) (snd p) = p
    \<Longrightarrow> fst ` set cv \<inter> fst ` set d = {} \<Longrightarrow> foldl init_step d cv = d @ cv"
proof (induction cv arbitrary: d)
  case Nil
  then show ?case by simp
next
  case (Cons e cv)
  obtain l r x where e: "e = ((l, r), x)" by (metis prod.collapse)
  have st: "sorted_tuple l r = (l, r)" using Cons.prems(2) e by force
  have fresh: "(l, r) \<notin> fst ` set d" using Cons.prems(3) e by auto
  have step: "init_step d e = d @ [e]" using e st setitem_fresh [OF fresh] by simp
  have "foldl init_step (d @ [e]) cv = (d @ [e]) @ cv"
    using Cons.prems e by (intro Cons.IH) auto
  then show ?case using step by simp
qed

lemma sorted_tuple_le: "sorted_tuple a b = (c, d) \<Longrightarrow> c \<le> d"
  by (auto simp: sorted_tuple_def split: if_splits)

lemma sorted_tuple_id: "a \<le> b \<Longrightarrow> sorted_tuple a b = (a, b)"
  by (auto simp: sorted_tuple_def)

lemma sorted_tuple_idem: "sorted_tuple (fst (sorted_tuple a b)) (snd (sorted_tuple a b)) = sorted_tuple a b"
  by (auto simp: sorted_tuple_def)

lemma dict_comp_cong:
  "\<forall>k\<in>set ks. f k = g k \<Longrightarrow> dict_comp f ks d = dict_comp g ks d"
  by (induction ks arbitrary: d) (auto split: sum.splits)

lemma getitem_present: "k \<in> fst ` set d \<Longrightarrow> getitem d k = Inr (the (map_of d k))"
  by (auto simp: getitem_def split: option.splits dest: weak_map_of_SomeI simp: map_of_eq_None_iff)

lemma getitem_absent: "k \<notin> fst ` set d \<Longrightarrow> getitem d k = Inl KeyError"
  by (simp add: getitem_def map_of_eq_None_iff [THEN iffD2])

lemma dict_comp_getitem:
  assumes "distinct ks"
  shows "dict_comp (getitem d) ks [] =
    (if set ks \<subseteq> set (keys d) then Inr (select d ks) else Inl KeyError)"
proof (cases "set ks \<subseteq> set (keys d)")
  case True
  have "getitem d k = Inr (the (map_of d k))" if "k \<in> set ks" for k
  proof (rule getitem_present)
    show "k \<in> fst ` set d" using True that unfolding keys_def by auto
  qed
  then have all: "\<forall>k\<in>set ks. getitem d k = Inr (the (map_of d k))" by blast
  have disj: "set ks \<inter> fst ` set [] = {}" by simp
  have "dict_comp (getitem d) ks [] = Inr ([] @ map (\<lambda>k. (k, the (map_of d k))) ks)"
    by (rule dict_comp_distinct [OF assms disj all])
  then show ?thesis using True by (simp add: select_def)
next
  case False
  then obtain k where k: "k \<in> set ks" "k \<notin> fst ` set d" unfolding keys_def by auto
  have all: "\<forall>k\<in>set ks. getitem d k = Inl KeyError \<or> (\<exists>v. getitem d k = Inr v)"
    by (simp add: getitem_def split: option.splits)
  have "getitem d k = Inl KeyError" by (rule getitem_absent [OF k(2)])
  then have ex: "\<exists>k\<in>set ks. getitem d k = Inl KeyError" using k(1) by blast
  have "dict_comp (getitem d) ks [] = Inl KeyError" by (rule dict_comp_error [OF all ex])
  then show ?thesis using False by simp
qed

lemma select_keys: "keys (select d ks) = ks"
  by (simp add: keys_def select_def comp_def)

lemma select_canonical_init:
  assumes "distinct cs" "\<forall>p\<in>set cs. sorted_tuple (fst p) (snd p) = p"
  shows "foldl init_step [] (select d cs) = select d cs"
proof -
  have k: "map fst (select d cs) = cs" using select_keys [of d cs] by (simp add: keys_def)
  have "foldl init_step [] (select d cs) = [] @ select d cs"
  proof (rule init_fold_canonical)
    show "distinct (map fst (select d cs))" using assms(1) k by simp
    show "\<forall>p\<in>fst ` set (select d cs). sorted_tuple (fst p) (snd p) = p"
      using assms(2) k by (metis list.set_map)
    show "fst ` set (select d cs) \<inter> fst ` set [] = {}" by simp
  qed
  then show ?thesis by simp
qed

lemma validate_distinct:
  assumes "validate_aggr_cols has_count mean_cols var_cols cov_cols = (hc, ms, vs, cs)"
  shows "distinct ms" "distinct vs" "distinct cs"
    "\<forall>p\<in>set cs. sorted_tuple (fst p) (snd p) = p"
proof -
  have ms: "ms = tuple_of_set (mean_cols @ var_cols @ chain cov_cols)"
    and vs: "vs = tuple_of_set var_cols"
    and cs: "cs = tuple_of_set (map (\<lambda>(left, right). sorted_tuple left right) cov_cols)"
    using assms by (simp_all add: validate_aggr_cols_def)
  show "distinct ms" "distinct vs" "distinct cs"
    by (simp_all add: ms vs cs tuple_of_set_def)
  show "\<forall>p\<in>set cs. sorted_tuple (fst p) (snd p) = p"
  proof
    fix p assume "p \<in> set cs"
    then obtain l r where "p = sorted_tuple l r"
      by (auto simp: cs tuple_of_set_def)
    then show "sorted_tuple (fst p) (snd p) = p" by (simp add: sorted_tuple_idem)
  qed
qed

lemma filter_explicit:
  assumes v: "validate_aggr_cols has_count mean_cols var_cols cov_cols = (hc, ms, vs, cs)"
  shows "aggr_filter s has_count mean_cols var_cols cov_cols =
     (if hc \<and> count_attr s = None then Inl RuntimeError
      else if set ms \<subseteq> set (keys (mean_attr s)) \<and> set vs \<subseteq> set (keys (var_attr s))
              \<and> set cs \<subseteq> set (keys (cov_attr s))
      then Inr \<lparr>count_attr = (if hc then count_attr s else None),
                mean_attr = select (mean_attr s) ms,
                var_attr = select (var_attr s) vs,
                cov_attr = select (cov_attr s) cs\<rparr>
      else Inl KeyError)"
proof -
  note d = validate_distinct [OF v]
  have m: "dict_comp (\<lambda>col. mean s (Some col)) ms [] =
      (if set ms \<subseteq> set (keys (mean_attr s)) then Inr (select (mean_attr s) ms) else Inl KeyError)"
    using dict_comp_getitem [OF d(1), of "mean_attr s"] by (simp add: mean_def)
  have va: "dict_comp (\<lambda>col. var s (Some col)) vs [] =
      (if set vs \<subseteq> set (keys (var_attr s)) then Inr (select (var_attr s) vs) else Inl KeyError)"
    using dict_comp_getitem [OF d(2), of "var_attr s"] by (simp add: var_def)
  have "dict_comp (\<lambda>cols. cov s (Some (fst cols)) (Some (snd cols))) cs [] =
      dict_comp (getitem (cov_attr s)) cs []"
    by (rule dict_comp_cong) (simp add: cov_def d(4))
  then have c: "dict_comp (\<lambda>cols. cov s (Some (fst cols)) (Some (snd cols))) cs [] =
      (if set cs \<subseteq> set (keys (cov_attr s)) then Inr (select (cov_attr s) cs) else Inl KeyError)"
    using dict_comp_getitem [OF d(3), of "cov_attr s"] by simp
  have i: "foldl init_step [] (select (cov_attr s) cs) = select (cov_attr s) cs"
    by (rule select_canonical_init [OF d(3,4)])
  show ?thesis
    unfolding aggr_filter_def v prod.case m va c
    by (simp add: count_def aggr_init_def i split: option.splits)
qed

lemma select_select: "select (select d ks) ks = select d ks"
proof -
  have "map_of (select d ks) k = Some (the (map_of d k))" if "k \<in> set ks" for k
    using that by (induction ks) (auto simp: select_def)
  then show ?thesis by (simp add: select_def)
qed

subsection \<open>The count of a merge\<close>

lemma add_count_none:
  assumes "count_attr a = None"
  shows "aggr_add a b =
    (if mean_attr a = [] \<and> var_attr a = [] \<and> cov_attr a = []
     then Inr (aggr_init None [] [] []) else Inl RuntimeError)"
proof -
  have c: "count a = Inl RuntimeError" using assms by (simp add: count_def)
  have m: "dict_comp (add_mean a b) ks [] = (if ks = [] then Inr [] else Inl RuntimeError)" for ks
    by (cases ks) (simp_all add: add_mean_def c)
  have v: "dict_comp (add_var a b) ks [] = (if ks = [] then Inr [] else Inl RuntimeError)" for ks
    by (cases ks) (simp_all add: add_var_def c)
  have cv: "dict_comp (add_cov a b) ks [] = (if ks = [] then Inr [] else Inl RuntimeError)" for ks
    by (cases ks) (simp_all add: add_cov_def c)
  show ?thesis
    unfolding aggr_add_def m v cv using assms by (simp add: keys_def)
qed

lemma add_count_missing_right:
  assumes "count_attr a = Some n1" and "count_attr b = None"
  shows "aggr_add a b = Inl RuntimeError"
  using assms by (simp add: aggr_add_def count_def)

lemma add_count_sum:
  assumes "count_attr a = Some n1" and "count_attr b = Some n2" and "aggr_add a b = Inr r"
  shows "count_attr r = Some (n1 + n2)"
  using assms
  by (auto simp: aggr_add_def count_def bindE_def aggr_init_def split: sum.splits)

subsection \<open>Canonical covariance keys\<close>

lemma canonical_pair_unique:
  fixes p q :: "string \<times> string"
  assumes "fst p \<le> snd p" "fst q \<le> snd q" "{fst p, snd p} = {fst q, snd q}"
  shows "p = q"
proof -
  have "fst p = fst q \<and> snd p = snd q \<or> fst p = snd q \<and> snd p = fst q"
    using assms(3) by (auto simp: doubleton_eq_iff)
  then show ?thesis using assms(1,2) by (auto simp: prod_eq_iff)
qed

lemma init_canonical_keys: "canonical_keys (foldl init_step [] cv)"
proof -
  let ?d = "foldl init_step [] cv"
  have dist: "distinct (keys ?d)"
    unfolding keys_def by (rule init_fold_distinct) simp
  have sorted: "fst p \<le> snd p" if "p \<in> set (keys ?d)" for p
  proof -
    from that have "p \<in> fst ` set ?d" by (simp add: keys_def)
    then obtain k where "p = sorted_tuple (fst k) (snd k)"
      unfolding init_fold_keys by auto
    then show ?thesis by (metis prod.collapse sorted_tuple_le)
  qed
  have "p = q" if "p \<in> set (keys ?d)" "q \<in> set (keys ?d)" "{fst p, snd p} = {fst q, snd q}" for p q
    using canonical_pair_unique [OF sorted [OF that(1)] sorted [OF that(2)] that(3)] .
  with dist sorted show ?thesis unfolding canonical_keys_def by blast
qed

lemma filter_is_init:
  assumes "aggr_filter s has_count mean_cols var_cols cov_cols = Inr r"
  shows "\<exists>c m v cv. r = aggr_init c m v cv"
  using assms unfolding aggr_filter_def bindE_def
  by (auto split: prod.splits sum.splits if_splits)

lemma add_is_init:
  assumes "aggr_add a b = Inr r"
  shows "\<exists>c m v cv. r = aggr_init c m v cv"
  using assms unfolding aggr_add_def bindE_def
  by (auto split: sum.splits if_splits)

lemma init_fold_value:
  "map_of (foldl init_step d cv) k = Some z \<Longrightarrow>
     map_of d k = Some z \<or> (\<exists>l r. ((l, r), z) \<in> set cv \<and> sorted_tuple l r = k)"
proof (induction cv arbitrary: d)
  case Nil
  then show ?case by simp
next
  case (Cons e cv)
  obtain l r x where e: "e = ((l, r), x)" by (metis prod.collapse)
  from Cons.prems have "map_of (foldl init_step (setitem d (sorted_tuple l r) x) cv) k = Some z"
    by (simp add: e)
  from Cons.IH [OF this] show ?case
  proof
    assume "map_of (setitem d (sorted_tuple l r) x) k = Some z"
    then show ?thesis
      by (auto simp: setitem_def update_conv' e split: if_splits)
  next
    assume "\<exists>l r. ((l, r), z) \<in> set cv \<and> sorted_tuple l r = k"
    then show ?thesis by auto
  qed
qed

lemma sorted_tuple_eq_cases:
  "sorted_tuple l' r' = sorted_tuple l r \<Longrightarrow> (l', r') = (l, r) \<or> (l', r') = (r, l)"
  by (auto simp: sorted_tuple_def split: if_splits)

lemma init_collapse_value:
  assumes dist: "distinct (keys cv)" and x: "((l, r), x) \<in> set cv" and y: "((r, l), y) \<in> set cv"
  shows "cov (aggr_init c m v cv) (Some l) (Some r) = Inr x \<or>
         cov (aggr_init c m v cv) (Some l) (Some r) = Inr y"
proof -
  let ?d = "foldl init_step [] cv"
  let ?k = "sorted_tuple l r"
  have "?k \<in> fst ` set ?d"
    unfolding init_fold_keys using x by force
  then obtain z where z: "map_of ?d ?k = Some z"
    by (metis map_of_eq_None_iff not_Some_eq)
  from init_fold_value [OF z] obtain l' r' where
    lr: "((l', r'), z) \<in> set cv" "sorted_tuple l' r' = ?k" by auto
  have d: "distinct (map fst cv)" using dist by (simp add: keys_def)
  from sorted_tuple_eq_cases [OF lr(2)] have "z = x \<or> z = y"
  proof
    assume "(l', r') = (l, r)"
    then have "z = x" using lr(1) x d by (metis eq_key_imp_eq_value)
    then show ?thesis ..
  next
    assume "(l', r') = (r, l)"
    then have "z = y" using lr(1) y d by (metis eq_key_imp_eq_value)
    then show ?thesis ..
  qed
  then show ?thesis using z by (auto simp: cov_def aggr_init_def getitem_def)
qed

lemma init_collapse_length:
  assumes dist: "distinct (keys cv)" and x: "((l, r), x) \<in> set cv" and y: "((r, l), y) \<in> set cv"
    and ne: "l \<noteq> r"
  shows "length (cov_attr (aggr_init c m v cv)) < length cv"
proof -
  let ?d = "foldl init_step [] cv"
  let ?f = "\<lambda>p. sorted_tuple (fst p) (snd p)"
  let ?K = "fst ` set cv"
  have dd: "distinct (map fst ?d)" by (rule init_fold_distinct) simp
  have "length ?d = card (fst ` set ?d)"
    using distinct_card [OF dd] by simp
  also have "\<dots> = card (?f ` ?K)" by (simp add: init_fold_keys)
  also have "\<dots> < card ?K"
  proof -
    have "(l, r) \<in> ?K" "(r, l) \<in> ?K" using x y by force+
    moreover have "?f (l, r) = ?f (r, l)" by (auto simp: sorted_tuple_def)
    moreover have "(l, r) \<noteq> (r, l)" using ne by simp
    ultimately have "\<not> inj_on ?f ?K" unfolding inj_on_def by blast
    then have "card (?f ` ?K) \<noteq> card ?K" using eq_card_imp_inj_on [of ?K ?f] by auto
    moreover have "card (?f ` ?K) \<le> card ?K" by (rule card_image_le) simp
    ultimately show ?thesis by simp
  qed
  also have "\<dots> = length cv"
    using distinct_card [of "map fst cv"] dist by (simp add: keys_def)
  finally show ?thesis by (simp add: aggr_init_def)
qed

subsection \<open>The merge computes the formulas of the specification\<close>

lemma mean_present:
  "k \<in> set (keys (mean_attr a)) \<Longrightarrow> mean a (Some k) = Inr (val (mean_attr a) k)"
  by (simp add: mean_def keys_def val_def getitem_present)

lemma var_present:
  "k \<in> set (keys (var_attr a)) \<Longrightarrow> var a (Some k) = Inr (val (var_attr a) k)"
  by (simp add: var_def keys_def val_def getitem_present)

lemma cov_present:
  assumes "canonical_keys (cov_attr a)" and "k \<in> set (keys (cov_attr a))"
  shows "cov a (Some (fst k)) (Some (snd k)) = Inr (val (cov_attr a) k)"
proof -
  have "fst k \<le> snd k" using assms by (simp add: canonical_keys_def)
  then have "sorted_tuple (fst k) (snd k) = k" by (simp add: sorted_tuple_id)
  moreover have "k \<in> fst ` set (cov_attr a)" using assms(2) by (simp add: keys_def)
  ultimately show ?thesis by (simp add: cov_def val_def getitem_present)
qed

lemma add_mean_value:
  assumes "count_attr a = Some n1" and "count_attr b = Some n2" and "n1 + n2 \<noteq> 0"
    and "mean a (Some k) = Inr m1" and "mean b (Some k) = Inr m2"
  shows "add_mean a b k = Inr (spec_mean n1 n2 m1 m2)"
  using assms by (simp add: add_mean_def count_def truediv_def spec_mean_def Let_def)

lemma add_var_value:
  assumes "count_attr a = Some n1" and "count_attr b = Some n2"
    and "n1 + n2 \<noteq> 0" and "n1 + n2 \<noteq> 1"
    and "mean a (Some k) = Inr m1" and "mean b (Some k) = Inr m2"
    and "var a (Some k) = Inr v1" and "var b (Some k) = Inr v2"
  shows "add_var a b k = Inr (spec_variance n1 n2 v1 v2 m1 m2)"
  using assms
  by (simp add: add_var_def count_def truediv_def spec_variance_def power2_eq_square Let_def)

lemma add_cov_value:
  assumes "count_attr a = Some n1" and "count_attr b = Some n2"
    and "n1 + n2 \<noteq> 0" and "n1 + n2 \<noteq> 1"
    and "mean a (Some (fst k)) = Inr ma1" and "mean b (Some (fst k)) = Inr ma2"
    and "mean a (Some (snd k)) = Inr mb1" and "mean b (Some (snd k)) = Inr mb2"
    and "cov a (Some (fst k)) (Some (snd k)) = Inr c1"
    and "cov b (Some (fst k)) (Some (snd k)) = Inr c2"
  shows "add_cov a b k = Inr (spec_covariance n1 n2 c1 c2 ma1 ma2 mb1 mb2)"
  using assms
  by (simp add: add_cov_def count_def truediv_def spec_covariance_def Let_def)

lemma mean_absent:
  "k \<notin> set (keys (mean_attr a)) \<Longrightarrow> mean a (Some k) = Inl KeyError"
  by (simp add: mean_def keys_def getitem_absent)

lemma dict_comp_map:
  assumes "distinct ks" and "\<forall>k\<in>set ks. f k = Inr (g k)"
  shows "dict_comp f ks [] = Inr (map (\<lambda>k. (k, g k)) ks)"
proof -
  have "set ks \<inter> fst ` set [] = {}" by simp
  from dict_comp_distinct [OF assms(1) this assms(2)] show ?thesis by simp
qed

lemma dict_comp_total:
  assumes "distinct ks" and "\<forall>k\<in>set ks. f k = (if P k then Inr (g k) else Inl e)"
  shows "dict_comp f ks [] =
    (if \<forall>k\<in>set ks. P k then Inr (map (\<lambda>k. (k, g k)) ks) else Inl e)"
proof (cases "\<forall>k\<in>set ks. P k")
  case True
  then have "\<forall>k\<in>set ks. f k = Inr (g k)" using assms(2) by simp
  from dict_comp_map [OF assms(1) this] True show ?thesis by simp
next
  case False
  have all: "\<forall>k\<in>set ks. f k = Inl e \<or> (\<exists>v. f k = Inr v)" using assms(2) by simp
  have ex: "\<exists>k\<in>set ks. f k = Inl e" using False assms(2) by auto
  from dict_comp_error [OF all ex] False show ?thesis by simp
qed

lemma set_chain: "set (chain ps) = fst ` set ps \<union> snd ` set ps"
  by (induction ps) (auto simp: chain_def)

lemma chain_subset:
  "set (chain ps) \<subseteq> S \<longleftrightarrow> (\<forall>p\<in>set ps. fst p \<in> S \<and> snd p \<in> S)"
  unfolding set_chain by auto

lemma add_var_uncovered:
  assumes "count_attr a = Some n1" and "count_attr b = Some n2"
    and "k \<notin> set (keys (mean_attr a))"
  shows "add_var a b k = Inl KeyError"
  using assms by (simp add: add_var_def count_def mean_absent Let_def)

lemma add_cov_uncovered:
  assumes "count_attr a = Some n1" and "count_attr b = Some n2"
    and "set (keys (mean_attr a)) = set (keys (mean_attr b))"
    and "\<not> (fst k \<in> set (keys (mean_attr a)) \<and> snd k \<in> set (keys (mean_attr a)))"
  shows "add_cov a b k = Inl KeyError"
proof (cases "fst k \<in> set (keys (mean_attr a))")
  case False
  then show ?thesis using assms(1,2) by (simp add: add_cov_def count_def mean_absent Let_def)
next
  case True
  then have fb: "fst k \<in> set (keys (mean_attr b))" using assms(3) by simp
  have "snd k \<notin> set (keys (mean_attr a))" using True assms(4) by simp
  then show ?thesis
    using assms(1,2) mean_present [OF True] mean_present [OF fb]
    by (simp add: add_cov_def count_def mean_absent Let_def)
qed

lemma merge_pre_counts:
  assumes "merge_pre a b"
  obtains n1 n2 where "count_attr a = Some n1" and "count_attr b = Some n2"
    and "2 \<le> n1" and "2 \<le> n2"
  using assms by (auto simp: merge_pre_def split: option.splits)

lemma add_mean_comp:
  assumes pre: "merge_pre a b"
  shows "dict_comp (add_mean a b) (keys (mean_attr a)) [] =
    Inr (map (\<lambda>k. (k, merged_mean a b k)) (keys (mean_attr a)))"
proof (rule dict_comp_map)
  from pre obtain n1 n2 where n: "count_attr a = Some n1" "count_attr b = Some n2"
    and ge: "2 \<le> n1" "2 \<le> n2"
    by (rule merge_pre_counts)
  have N: "n1 + n2 \<noteq> 0" using ge by simp
  have km: "set (keys (mean_attr a)) = set (keys (mean_attr b))"
    using pre by (simp add: merge_pre_def)
  show "distinct (keys (mean_attr a))" using pre by (simp add: merge_pre_def well_formed_def)
  show "\<forall>k\<in>set (keys (mean_attr a)). add_mean a b k = Inr (merged_mean a b k)"
  proof
    fix k assume k: "k \<in> set (keys (mean_attr a))"
    then have k': "k \<in> set (keys (mean_attr b))" using km by simp
    show "add_mean a b k = Inr (merged_mean a b k)"
      using add_mean_value [OF n N mean_present [OF k] mean_present [OF k']]
      by (simp add: merged_mean_def n)
  qed
qed

lemma add_var_comp:
  assumes pre: "merge_pre a b"
  shows "dict_comp (add_var a b) (keys (var_attr a)) [] =
    (if set (keys (var_attr a)) \<subseteq> set (keys (mean_attr a))
     then Inr (map (\<lambda>k. (k, merged_var a b k)) (keys (var_attr a))) else Inl KeyError)"
proof -
  from pre obtain n1 n2 where n: "count_attr a = Some n1" "count_attr b = Some n2"
    and ge: "2 \<le> n1" "2 \<le> n2"
    by (rule merge_pre_counts)
  have N: "n1 + n2 \<noteq> 0" "n1 + n2 \<noteq> 1" using ge by simp_all
  have km: "set (keys (mean_attr a)) = set (keys (mean_attr b))"
    and kv: "set (keys (var_attr a)) = set (keys (var_attr b))"
    using pre by (simp_all add: merge_pre_def)
  have d: "distinct (keys (var_attr a))" using pre by (simp add: merge_pre_def well_formed_def)
  have "\<forall>k\<in>set (keys (var_attr a)). add_var a b k =
      (if k \<in> set (keys (mean_attr a)) then Inr (merged_var a b k) else Inl KeyError)"
  proof
    fix k assume k: "k \<in> set (keys (var_attr a))"
    then have k': "k \<in> set (keys (var_attr b))" using kv by simp
    show "add_var a b k =
      (if k \<in> set (keys (mean_attr a)) then Inr (merged_var a b k) else Inl KeyError)"
    proof (cases "k \<in> set (keys (mean_attr a))")
      case True
      then have mb: "k \<in> set (keys (mean_attr b))" using km by simp
      show ?thesis
        using add_var_value [OF n N mean_present [OF True] mean_present [OF mb]
            var_present [OF k] var_present [OF k']] True
        by (simp add: merged_var_def n)
    next
      case False
      then show ?thesis using add_var_uncovered [OF n False] by simp
    qed
  qed
  from dict_comp_total [OF d this] show ?thesis by (simp add: subset_iff)
qed

lemma add_cov_comp:
  assumes pre: "merge_pre a b"
  shows "dict_comp (add_cov a b) (keys (cov_attr a)) [] =
    (if set (chain (keys (cov_attr a))) \<subseteq> set (keys (mean_attr a))
     then Inr (map (\<lambda>k. (k, merged_cov a b k)) (keys (cov_attr a))) else Inl KeyError)"
proof -
  from pre obtain n1 n2 where n: "count_attr a = Some n1" "count_attr b = Some n2"
    and ge: "2 \<le> n1" "2 \<le> n2"
    by (rule merge_pre_counts)
  have N: "n1 + n2 \<noteq> 0" "n1 + n2 \<noteq> 1" using ge by simp_all
  have km: "set (keys (mean_attr a)) = set (keys (mean_attr b))"
    and kc: "set (keys (cov_attr a)) = set (keys (cov_attr b))"
    using pre by (simp_all add: merge_pre_def)
  have ca: "canonical_keys (cov_attr a)" and cb: "canonical_keys (cov_attr b)"
    using pre by (simp_all add: merge_pre_def well_formed_def)
  have d: "distinct (keys (cov_attr a))" using ca by (simp add: canonical_keys_def)
  let ?P = "\<lambda>k. fst k \<in> set (keys (mean_attr a)) \<and> snd k \<in> set (keys (mean_attr a))"
  have "\<forall>k\<in>set (keys (cov_attr a)). add_cov a b k =
      (if ?P k then Inr (merged_cov a b k) else Inl KeyError)"
  proof
    fix k assume k: "k \<in> set (keys (cov_attr a))"
    then have k': "k \<in> set (keys (cov_attr b))" using kc by simp
    show "add_cov a b k = (if ?P k then Inr (merged_cov a b k) else Inl KeyError)"
    proof (cases "?P k")
      case True
      then have fa: "fst k \<in> set (keys (mean_attr a))" and sa: "snd k \<in> set (keys (mean_attr a))"
        by simp_all
      then have fb: "fst k \<in> set (keys (mean_attr b))" and sb: "snd k \<in> set (keys (mean_attr b))"
        using km by simp_all
      show ?thesis
        using add_cov_value [OF n N mean_present [OF fa] mean_present [OF fb]
            mean_present [OF sa] mean_present [OF sb]
            cov_present [OF ca k] cov_present [OF cb k']] True
        by (simp add: merged_cov_def n)
    next
      case False
      then show ?thesis using add_cov_uncovered [OF n km False] by simp
    qed
  qed
  from dict_comp_total [OF d this] show ?thesis by (simp add: chain_subset)
qed

lemma init_merged_cov:
  assumes "canonical_keys (cov_attr a)"
  shows "foldl init_step [] (map (\<lambda>k. (k, g k)) (keys (cov_attr a))) =
    map (\<lambda>k. (k, g k)) (keys (cov_attr a))"
proof -
  let ?cv = "map (\<lambda>k. (k, g k)) (keys (cov_attr a))"
  have fk: "map fst ?cv = keys (cov_attr a)" by (simp add: comp_def)
  have "foldl init_step [] ?cv = [] @ ?cv"
  proof (rule init_fold_canonical)
    show "distinct (map fst ?cv)" unfolding fk using assms by (simp add: canonical_keys_def)
    show "\<forall>p\<in>fst ` set ?cv. sorted_tuple (fst p) (snd p) = p"
    proof
      fix p assume "p \<in> fst ` set ?cv"
      then have "p \<in> set (keys (cov_attr a))" using fk by (metis list.set_map)
      then have "fst p \<le> snd p" using assms by (simp add: canonical_keys_def)
      then show "sorted_tuple (fst p) (snd p) = p" by (simp add: sorted_tuple_id)
    qed
    show "fst ` set ?cv \<inter> fst ` set [] = {}" by simp
  qed
  then show ?thesis by simp
qed

lemma add_explicit:
  assumes pre: "merge_pre a b"
  shows "aggr_add a b = (if covered a then Inr (spec_merge a b) else Inl KeyError)"
proof -
  from pre obtain n1 n2 where n: "count_attr a = Some n1" "count_attr b = Some n2"
    by (rule merge_pre_counts)
  have ca: "canonical_keys (cov_attr a)"
    using pre by (simp add: merge_pre_def well_formed_def)
  show ?thesis
    unfolding aggr_add_def add_mean_comp [OF pre] add_var_comp [OF pre] add_cov_comp [OF pre]
    by (simp add: n count_def aggr_init_def init_merged_cov [OF ca] spec_merge_def covered_def)
qed

lemma add_refines_spec:
  assumes "merge_pre a b" and "covered a"
  shows "aggr_add a b = Inr (spec_merge a b)"
  using add_explicit [OF assms(1)] assms(2) by simp

subsection \<open>Pooled statistics of a concatenated sample\<close>

lemma sum_sq_dev_expand:
  "sum_list (map (\<lambda>x. (x - m) * (x - m)) xs) =
     sum_list (map (\<lambda>x. x * x) xs) - 2 * m * sum_list xs + of_nat (length xs) * m * m"
  for m :: rat
  by (induction xs) (simp_all add: algebra_simps)

lemma sum_sq_dev_mean:
  assumes "xs \<noteq> []"
  shows "sum_list (map (\<lambda>x. (x - sample_mean xs) * (x - sample_mean xs)) xs) =
     sum_list (map (\<lambda>x. x * x) xs) - sum_list xs * sum_list xs / of_nat (length xs)"
proof -
  have n: "(of_nat (length xs) :: rat) \<noteq> 0" using assms by simp
  show ?thesis
    unfolding sum_sq_dev_expand sample_mean_def using n by (simp add: field_simps)
qed

lemma pooled_algebra:
  fixes s1 s2 q1 q2 n1 n2 :: rat
  assumes "0 < n1" "0 < n2"
  shows "(q1 - s1 * s1 / n1) + (q2 - s2 * s2 / n2)
      + (s1 / n1 - s2 / n2) * (s1 / n1 - s2 / n2) * n1 * n2 / (n1 + n2)
    = (q1 + q2) - (s1 + s2) * (s1 + s2) / (n1 + n2)"
proof -
  define a where "a = s1 / n1"
  define b where "b = s2 / n2"
  define N where "N = n1 + n2"
  have N: "N \<noteq> 0" using assms by (simp add: N_def)
  have s1: "s1 = a * n1" and s2: "s2 = b * n2" using assms by (simp_all add: a_def b_def)
  define X where "X = (a - b) * (a - b) * n1 * n2"
  define Y where "Y = (a * n1 + b * n2) * (a * n1 + b * n2)"
  define Z where "Z = a * a * n1 + b * b * n2"
  have key: "X + Y = Z * N"
    unfolding X_def Y_def Z_def N_def by (simp add: algebra_simps)
  have "X / N + Y / N = Z"
    using key N by (simp add: add_divide_distrib [symmetric])
  then have "X / N = Z - Y / N" by simp
  moreover have "s1 * s1 / n1 = a * a * n1" "s2 * s2 / n2 = b * b * n2"
    using assms by (simp_all add: s1 s2)
  ultimately show ?thesis
    unfolding a_def [symmetric] b_def [symmetric] N_def [symmetric]
    unfolding X_def [symmetric]
    by (simp add: Z_def Y_def s1 s2)
qed

lemma pooled_variance:
  assumes "2 \<le> length xs" "2 \<le> length ys"
  shows "(sample_var xs * (of_nat (length xs) - 1) + sample_var ys * (of_nat (length ys) - 1)
      + (sample_mean xs - sample_mean ys) * (sample_mean xs - sample_mean ys)
          * of_nat (length xs) * of_nat (length ys) / (of_nat (length xs) + of_nat (length ys)))
      / (of_nat (length xs) + of_nat (length ys) - 1)
    = sample_var (xs @ ys)"
proof -
  let ?n1 = "of_nat (length xs) :: rat" and ?n2 = "of_nat (length ys) :: rat"
  have ne: "xs \<noteq> []" "ys \<noteq> []" "xs @ ys \<noteq> []" using assms by auto
  have n1: "?n1 - 1 \<noteq> 0" and n2: "?n2 - 1 \<noteq> 0"
    using assms by (simp_all add: of_nat_eq_iff [symmetric] del: of_nat_eq_iff)
  have pos: "0 < ?n1" "0 < ?n2" using ne by simp_all
  have v1: "sample_var xs * (?n1 - 1) =
      sum_list (map (\<lambda>x. x * x) xs) - sum_list xs * sum_list xs / ?n1"
    unfolding sample_var_def sum_sq_dev_mean [OF ne(1)] using n1 by simp
  have v2: "sample_var ys * (?n2 - 1) =
      sum_list (map (\<lambda>x. x * x) ys) - sum_list ys * sum_list ys / ?n2"
    unfolding sample_var_def sum_sq_dev_mean [OF ne(2)] using n2 by simp
  have v: "sample_var (xs @ ys) =
      (sum_list (map (\<lambda>x. x * x) xs) + sum_list (map (\<lambda>x. x * x) ys)
        - (sum_list xs + sum_list ys) * (sum_list xs + sum_list ys) / (?n1 + ?n2))
      / (?n1 + ?n2 - 1)"
    unfolding sample_var_def sum_sq_dev_mean [OF ne(3)] by simp
  show ?thesis
    unfolding v1 v2 v
    using pooled_algebra [OF pos, of "sum_list (map (\<lambda>x. x * x) xs)" "sum_list xs"
        "sum_list (map (\<lambda>x. x * x) ys)" "sum_list ys"]
    by (simp add: sample_mean_def)
qed

lemma pooled_mean:
  assumes "xs \<noteq> []" "ys \<noteq> []"
  shows "(of_nat (length xs) * sample_mean xs + of_nat (length ys) * sample_mean ys)
      / (of_nat (length xs) + of_nat (length ys)) = sample_mean (xs @ ys)"
  using assms by (simp add: sample_mean_def)

section \<open>The claims\<close>

lemmas eval_defs = aggr_add_def add_mean_def add_var_def add_cov_def aggr_filter_def
  validate_aggr_cols_def tuple_of_set_def chain_def keys_def truediv_def Let_def

lemma merge_pre_samples: "merge_pre sample_a_store sample_b_store"
  by (simp add: merge_pre_def well_formed_def canonical_keys_def keys_def store_defs)

lemma covered_sample_a: "covered sample_a_store"
  by (simp add: covered_def keys_def chain_def store_defs)

lemma merge_pre_pairs: "merge_pre pair_a_store pair_b_store"
  by (auto simp: merge_pre_def well_formed_def canonical_keys_def keys_def store_defs)

lemma covered_pair_a: "covered pair_a_store"
  by (simp add: covered_def keys_def chain_def store_defs)

lemma map_of_graph:
  "k \<in> set ks \<Longrightarrow> map_of (map (\<lambda>k. (k, g k)) ks) k = Some (g k)"
  by (induction ks) auto

lemma merge_pre_sym: "merge_pre a b \<Longrightarrow> merge_pre b a"
  by (auto simp: merge_pre_def split: option.splits)

lemma covered_sym: "merge_pre a b \<Longrightarrow> covered a = covered b"
  by (simp add: merge_pre_def covered_def set_chain)

text \<open>
  \<^bold>\<open>C1\<close> (as amended).  For two stores that satisfy the precondition of a merge and
  the invariant that every variable with a variance or covariance has a mean (as every
  store read from a sample does), with counts \<open>n1\<close> and \<open>n2\<close>, and a variable \<open>v\<close>
  with a variance, \<open>__add__\<close> returns a store whose count is \<open>n1 + n2\<close> and whose
  variance of \<open>v\<close> is
  \<open>[var1 (n1 - 1) + var2 (n2 - 1) + (mean1 - mean2)\<^sup>2 n1 n2 / N] / (N - 1)\<close>.  When the
  two stores hold the statistics of two samples \<open>xs\<close> and \<open>ys\<close>, the mean and the
  variance of \<open>v\<close> in the merged store are the sample mean and the sample variance of
  \<open>xs @ ys\<close>.  The witness is the scenario of the specification: the stores of
  \<open>[1,2,3]\<close> and \<open>[4,5,6,7]\<close> merge into count 7, mean 4 and variance 14/3, the
  statistics of \<open>[1,2,3,4,5,6,7]\<close>.
\<close>

theorem add_pooled_variance:
  assumes "merge_pre a b" and "covered a"
    and "count_attr a = Some n1" and "count_attr b = Some n2"
    and "v \<in> set (keys (var_attr a))"
    and "mean a (Some v) = Inr m1" and "mean b (Some v) = Inr m2"
    and "var a (Some v) = Inr v1" and "var b (Some v) = Inr v2"
  shows "\<exists>r. aggr_add a b = Inr r \<and> count r = Inr (n1 + n2) \<and>
    var r (Some v) =
      Inr ((v1 * (of_int n1 - 1) + v2 * (of_int n2 - 1)
              + (m1 - m2)\<^sup>2 * of_int n1 * of_int n2 / of_int (n1 + n2))
           / (of_int (n1 + n2) - 1)) \<and>
    (\<forall>xs ys. int (length xs) = n1 \<and> int (length ys) = n2 \<and>
        m1 = sample_mean xs \<and> v1 = sample_var xs \<and>
        m2 = sample_mean ys \<and> v2 = sample_var ys \<longrightarrow>
        mean r (Some v) = Inr (sample_mean (xs @ ys)) \<and>
        var r (Some v) = Inr (sample_var (xs @ ys)))"
proof -
  let ?r = "spec_merge a b"
  have km: "set (keys (mean_attr a)) = set (keys (mean_attr b))"
    and kv: "set (keys (var_attr a)) = set (keys (var_attr b))"
    and ge: "2 \<le> n1" "2 \<le> n2"
    using assms(1,3,4) by (simp_all add: merge_pre_def)
  have va: "v \<in> set (keys (var_attr a))" by (rule assms(5))
  have vm: "v \<in> set (keys (mean_attr a))" using va assms(2) by (auto simp: covered_def)
  have vals: "val (mean_attr a) v = m1" "val (mean_attr b) v = m2"
    "val (var_attr a) v = v1" "val (var_attr b) v = v2"
    using assms(6-9) mean_present [OF vm] mean_present [of v b] var_present [OF va]
      var_present [of v b] vm km kv va
    by simp_all
  have r: "aggr_add a b = Inr ?r" by (rule add_refines_spec [OF assms(1,2)])
  have cnt: "count ?r = Inr (n1 + n2)"
    by (simp add: spec_merge_def count_def assms(3,4))
  have mr: "mean ?r (Some v) = Inr (spec_mean n1 n2 m1 m2)"
    by (simp add: spec_merge_def mean_def getitem_def merged_mean_def assms(3,4)
        map_of_graph [OF vm] vals)
  have vr: "var ?r (Some v) = Inr (spec_variance n1 n2 v1 v2 m1 m2)"
    by (simp add: spec_merge_def var_def getitem_def merged_var_def assms(3,4)
        map_of_graph [OF va] vals)
  have sample: "mean ?r (Some v) = Inr (sample_mean (xs @ ys)) \<and>
      var ?r (Some v) = Inr (sample_var (xs @ ys))"
    if h: "int (length xs) = n1 \<and> int (length ys) = n2 \<and>
        m1 = sample_mean xs \<and> v1 = sample_var xs \<and>
        m2 = sample_mean ys \<and> v2 = sample_var ys" for xs ys
  proof -
    have len: "2 \<le> length xs" "2 \<le> length ys" using h ge by auto
    then have ne: "xs \<noteq> []" "ys \<noteq> []" by auto
    have n1: "(of_int n1 :: rat) = of_nat (length xs)"
      and n2: "(of_int n2 :: rat) = of_nat (length ys)"
      using h by auto
    have "spec_mean n1 n2 m1 m2 = sample_mean (xs @ ys)"
      using pooled_mean [OF ne] h by (simp add: spec_mean_def n1 n2)
    moreover have "spec_variance n1 n2 v1 v2 m1 m2 = sample_var (xs @ ys)"
      using pooled_variance [OF len] h by (simp add: spec_variance_def n1 n2 power2_eq_square)
    ultimately show ?thesis using mr vr by simp
  qed
  have "var ?r (Some v) =
      Inr ((v1 * (of_int n1 - 1) + v2 * (of_int n2 - 1)
              + (m1 - m2)\<^sup>2 * of_int n1 * of_int n2 / of_int (n1 + n2))
           / (of_int (n1 + n2) - 1))"
    using vr by (simp add: spec_variance_def)
  with r cnt sample show ?thesis by blast
qed

theorem add_pooled_variance_witness:
  "merge_pre sample_a_store sample_b_store \<and> covered sample_a_store \<and>
   sample_mean [1, 2, 3] = 2 \<and> sample_var [1, 2, 3] = 1 \<and>
   sample_mean [4, 5, 6, 7] = 11 / 2 \<and> sample_var [4, 5, 6, 7] = 5 / 3 \<and>
   (\<exists>r. aggr_add sample_a_store sample_b_store = Inr r \<and> count r = Inr 7 \<and>
      mean r (Some ''x'') = Inr 4 \<and> var r (Some ''x'') = Inr (14 / 3)) \<and>
   sample_mean [1, 2, 3, 4, 5, 6, 7] = 4 \<and> sample_var [1, 2, 3, 4, 5, 6, 7] = 14 / 3"
proof -
  have s: "sample_mean [1, 2, 3] = 2" "sample_var [1, 2, 3] = 1"
    "sample_mean [4, 5, 6, 7] = 11 / 2" "sample_var [4, 5, 6, 7] = 5 / 3"
    "sample_mean [1, 2, 3, 4, 5, 6, 7] = 4" "sample_var [1, 2, 3, 4, 5, 6, 7] = 14 / 3"
    by (simp_all add: sample_mean_def sample_var_def)
  have c: "count_attr sample_a_store = Some 3" "count_attr sample_b_store = Some 4"
    and k: "''x'' \<in> set (keys (var_attr sample_a_store))"
    and m: "mean sample_a_store (Some ''x'') = Inr 2" "mean sample_b_store (Some ''x'') = Inr (11 / 2)"
    and v: "var sample_a_store (Some ''x'') = Inr 1" "var sample_b_store (Some ''x'') = Inr (5 / 3)"
    by (simp_all add: store_defs accessor_defs keys_def)
  from add_pooled_variance [OF merge_pre_samples covered_sample_a c k m v]
  obtain r where r: "aggr_add sample_a_store sample_b_store = Inr r" "count r = Inr (3 + 4)"
    and all: "\<forall>xs ys. int (length xs) = 3 \<and> int (length ys) = 4 \<and>
        (2::rat) = sample_mean xs \<and> (1::rat) = sample_var xs \<and>
        (11 / 2 :: rat) = sample_mean ys \<and> (5 / 3 :: rat) = sample_var ys \<longrightarrow>
        mean r (Some ''x'') = Inr (sample_mean (xs @ ys)) \<and>
        var r (Some ''x'') = Inr (sample_var (xs @ ys))"
    by blast
  from all [rule_format, of "[1, 2, 3]" "[4, 5, 6, 7]"] s
  have "mean r (Some ''x'') = Inr 4 \<and> var r (Some ''x'') = Inr (14 / 3)" by simp
  with r s merge_pre_samples covered_sample_a show ?thesis by simp
qed

text \<open>
  Counterexample to \<^bold>\<open>C1\<close> as stated: the merged store has mean 4 and variance
  14/3, not 27/7 and 80/21, and neither are 27/7 and 80/21 the statistics of
  \<open>[1,2,3,4,5,6,7]\<close>.
\<close>

theorem add_scenario_counterexample:
  "aggr_add sample_a_store sample_b_store
     = Inr (aggr_init (Some 7) [(''x'', 4)] [(''x'', 14 / 3)] []) \<and>
   aggr_add sample_a_store sample_b_store
     \<noteq> Inr (aggr_init (Some 7) [(''x'', 27 / 7)] [(''x'', 80 / 21)] []) \<and>
   sample_mean [1, 2, 3, 4, 5, 6, 7] \<noteq> 27 / 7 \<and> sample_var [1, 2, 3, 4, 5, 6, 7] \<noteq> 80 / 21"
  by (simp add: eval_defs store_defs accessor_defs sample_mean_def sample_var_def)



text \<open>
  \<^bold>\<open>C3\<close> (as amended).  When both stores have a count and the merge returns, the
  count of the result is \<open>n1 + n2\<close>.  When the left store has a count and the right
  one has none, the merge raises \<open>RuntimeError\<close>.  When the left store has no count,
  the merge returns a store without count if the left store has no mean, variance or
  covariance at all, and raises \<open>RuntimeError\<close> otherwise.
\<close>

theorem add_count:
  "(count_attr a = Some n1 \<and> count_attr b = Some n2 \<and> aggr_add a b = Inr r
      \<longrightarrow> count_attr r = Some (n1 + n2)) \<and>
   (count_attr a' = Some n1' \<and> count_attr b' = None \<longrightarrow> aggr_add a' b' = Inl RuntimeError) \<and>
   (count_attr a'' = None \<longrightarrow> aggr_add a'' b'' =
      (if mean_attr a'' = [] \<and> var_attr a'' = [] \<and> cov_attr a'' = []
       then Inr (aggr_init None [] [] []) else Inl RuntimeError))"
  using add_count_sum [of a n1 b n2 r] add_count_missing_right [of a' n1' b']
    add_count_none [of a'' b'']
  by blast

theorem add_count_witness:
  "count_attr sample_a_store = Some 3 \<and> count_attr sample_b_store = Some 4 \<and>
   aggr_add sample_a_store sample_b_store
     = Inr (aggr_init (Some 7) [(''x'', 4)] [(''x'', 14 / 3)] []) \<and>
   count_attr (aggr_init (Some 7) [(''x'', 4)] [(''x'', 14 / 3)] []) = Some (3 + 4) \<and>
   count_attr (aggr_init None [(''x'', 5)] [] []) = None \<and>
   aggr_add sample_a_store (aggr_init None [(''x'', 5)] [] []) = Inl RuntimeError \<and>
   count_attr (aggr_init None [] [] []) = None \<and>
   aggr_add (aggr_init None [] [] []) sample_b_store = Inr (aggr_init None [] [] [])"
proof -
  let ?r = "aggr_init (Some 7) [(''x'', 4)] [(''x'', 14 / 3)] []"
  let ?n = "aggr_init None [(''x'', 5)] [] []"
  let ?e = "aggr_init None [] [] []"
  have h1: "count_attr sample_a_store = Some 3" "count_attr sample_b_store = Some 4"
    by (simp_all add: store_defs)
  have h2: "aggr_add sample_a_store sample_b_store = Inr ?r"
    by (simp add: eval_defs store_defs accessor_defs)
  have h3: "count_attr ?n = None" "count_attr ?e = None"
    by (simp_all add: aggr_init_def)
  have e: "mean_attr ?e = [] \<and> var_attr ?e = [] \<and> cov_attr ?e = []"
    by (simp add: aggr_init_def)
  note t = add_count [of sample_a_store 3 sample_b_store 4 ?r sample_a_store 3 ?n ?e sample_b_store]
  from t h1 h2 h3 e show ?thesis by simp
qed

text \<open>
  Counterexample to \<^bold>\<open>C3\<close> as stated: a store with a count merged with a store
  without one raises \<open>RuntimeError\<close>; no store without count is returned.
\<close>

theorem add_count_counterexample:
  "count_attr (aggr_init None [(''x'', 5)] [] []) = None \<and>
   aggr_add (aggr_init (Some 3) [(''x'', 2)] [] []) (aggr_init None [(''x'', 5)] [] [])
     = Inl RuntimeError \<and>
   aggr_add (aggr_init (Some 3) [(''x'', 2)] [] []) (aggr_init None [(''x'', 5)] [] [])
     \<noteq> Inr (aggr_init None [(''x'', 5)] [] [])"
  by (simp add: aggr_add_def aggr_init_def count_def)

text \<open>
  \<^bold>\<open>C4\<close> (as amended).  With \<open>(hc, ms, vs, cs)\<close> the normalized request, \<open>filter\<close>
  raises \<open>RuntimeError\<close> when \<open>hc\<close> holds and the store has no count; otherwise it
  raises \<open>KeyError\<close> when the store lacks a requested mean, variance or covariance;
  otherwise it returns the store that holds exactly the requested entries, with the
  values of the source, and the count if \<open>hc\<close> holds.  No other exception is raised.
\<close>

theorem filter_result:
  assumes "validate_aggr_cols has_count mean_cols var_cols cov_cols = (hc, ms, vs, cs)"
  shows "aggr_filter s has_count mean_cols var_cols cov_cols =
     (if hc \<and> count_attr s = None then Inl RuntimeError
      else if set ms \<subseteq> set (keys (mean_attr s)) \<and> set vs \<subseteq> set (keys (var_attr s))
              \<and> set cs \<subseteq> set (keys (cov_attr s))
      then Inr \<lparr>count_attr = (if hc then count_attr s else None),
                mean_attr = select (mean_attr s) ms,
                var_attr = select (var_attr s) vs,
                cov_attr = select (cov_attr s) cs\<rparr>
      else Inl KeyError)"
  by (rule filter_explicit [OF assms])

theorem filter_result_witness:
  "validate_aggr_cols False [''y''] [''x''] [(''y'', ''x'')]
     = (True, [''y'', ''x''], [''x''], [(''x'', ''y'')]) \<and>
   aggr_filter scenario_store False [''y''] [''x''] [(''y'', ''x'')] =
     Inr \<lparr>count_attr = Some 10, mean_attr = [(''y'', 4), (''x'', 2)],
          var_attr = [(''x'', 1)], cov_attr = [((''x'', ''y''), 1 / 2)]\<rparr> \<and>
   validate_aggr_cols False [''z''] [] [] = (False, [''z''], [], []) \<and>
   aggr_filter scenario_store False [''z''] [] [] = Inl KeyError"
proof -
  have h: "validate_aggr_cols False [''y''] [''x''] [(''y'', ''x'')]
     = (True, [''y'', ''x''], [''x''], [(''x'', ''y'')])"
    by (simp add: validate_aggr_cols_def tuple_of_set_def chain_def sorted_tuple_def)
  have k: "validate_aggr_cols False [''z''] [] [] = (False, [''z''], [], [])"
    by (simp add: validate_aggr_cols_def tuple_of_set_def chain_def)
  have "aggr_filter scenario_store False [''y''] [''x''] [(''y'', ''x'')] =
     Inr \<lparr>count_attr = Some 10, mean_attr = [(''y'', 4), (''x'', 2)],
          var_attr = [(''x'', 1)], cov_attr = [((''x'', ''y''), 1 / 2)]\<rparr>"
    unfolding filter_result [OF h] by (simp add: store_defs keys_def select_def)
  moreover have "aggr_filter scenario_store False [''z''] [] [] = Inl KeyError"
    unfolding filter_result [OF k] by (simp add: store_defs keys_def)
  ultimately show ?thesis using h k by simp
qed

text \<open>
  Counterexample to \<^bold>\<open>C4\<close> as stated: a variance is requested, the normalization
  forces the count, the store has none, and the exception is \<open>RuntimeError\<close>, not
  \<open>KeyError\<close>.
\<close>

theorem filter_missing_count_counterexample:
  "aggr_filter (aggr_init None [(''x'', 2)] [(''x'', 1)] []) False [] [''x''] []
     = Inl RuntimeError \<and>
   aggr_filter (aggr_init None [(''x'', 2)] [(''x'', 1)] []) False [] [''x''] []
     \<noteq> Inl KeyError"
  by (simp add: eval_defs store_defs accessor_defs)

text \<open>
  \<^bold>\<open>C5\<close>.  \<open>filter\<close> is idempotent: when it returns a store, filtering that store
  with the same request returns the same store.
\<close>

theorem filter_idempotent:
  assumes "aggr_filter s has_count mean_cols var_cols cov_cols = Inr r"
  shows "aggr_filter r has_count mean_cols var_cols cov_cols = Inr r"
proof -
  obtain hc ms vs cs where
    v: "validate_aggr_cols has_count mean_cols var_cols cov_cols = (hc, ms, vs, cs)"
    by (metis prod_cases4)
  have ok: "\<not> (hc \<and> count_attr s = None)"
    and r: "r = \<lparr>count_attr = (if hc then count_attr s else None),
                mean_attr = select (mean_attr s) ms,
                var_attr = select (var_attr s) vs,
                cov_attr = select (cov_attr s) cs\<rparr>"
    using assms unfolding filter_explicit [OF v] by (auto split: if_splits)
  show ?thesis
    unfolding filter_explicit [OF v, of r] using ok
    by (simp add: r select_keys select_select)
qed

theorem filter_idempotent_witness:
  "aggr_filter scenario_store False [''y''] [''x''] [(''y'', ''x'')] =
     Inr \<lparr>count_attr = Some 10, mean_attr = [(''y'', 4), (''x'', 2)],
          var_attr = [(''x'', 1)], cov_attr = [((''x'', ''y''), 1 / 2)]\<rparr> \<and>
   aggr_filter \<lparr>count_attr = Some 10, mean_attr = [(''y'', 4), (''x'', 2)],
          var_attr = [(''x'', 1)], cov_attr = [((''x'', ''y''), 1 / 2)]\<rparr>
       False [''y''] [''x''] [(''y'', ''x'')] =
     Inr \<lparr>count_attr = Some 10, mean_attr = [(''y'', 4), (''x'', 2)],
          var_attr = [(''x'', 1)], cov_attr = [((''x'', ''y''), 1 / 2)]\<rparr>"
proof -
  have h: "aggr_filter scenario_store False [''y''] [''x''] [(''y'', ''x'')] =
     Inr \<lparr>count_attr = Some 10, mean_attr = [(''y'', 4), (''x'', 2)],
          var_attr = [(''x'', 1)], cov_attr = [((''x'', ''y''), 1 / 2)]\<rparr>"
    by (simp add: eval_defs store_defs accessor_defs)
  from filter_idempotent [OF h] h show ?thesis by simp
qed

text \<open>
  \<^bold>\<open>C6\<close>.  The covariance is symmetric: \<open>cov a b\<close> and \<open>cov b a\<close> are the same
  lookup, for every store and every two arguments, so one returns a value exactly when
  the other returns this value.  A store built with a covariance under the key
  \<open>(l, r)\<close> returns it for \<open>(l, r)\<close> and for \<open>(r, l)\<close>, whatever the order of \<open>l\<close> and
  \<open>r\<close>.
\<close>

theorem cov_symmetric:
  "cov s a b = cov s b a \<and>
   cov (aggr_init n m v [((l, r), x)]) (Some l) (Some r) = Inr x \<and>
   cov (aggr_init n m v [((l, r), x)]) (Some r) (Some l) = Inr x"
proof -
  have c: "sorted_tuple p q = sorted_tuple q p" for p q
    by (auto simp: sorted_tuple_def)
  have "cov s a b = cov s b a"
    by (cases a; cases b) (simp_all add: cov_def c)
  moreover have "cov (aggr_init n m v [((l, r), x)]) (Some l) (Some r) = Inr x"
    by (simp add: cov_def aggr_init_def setitem_def getitem_def)
  moreover have "cov (aggr_init n m v [((l, r), x)]) (Some r) (Some l) = Inr x"
    by (simp add: cov_def aggr_init_def setitem_def getitem_def c [of r l])
  ultimately show ?thesis by simp
qed

theorem cov_symmetric_witness:
  "cov pair_b_store (Some ''x'') (Some ''y'') = Inr (4 / 3) \<and>
   cov pair_b_store (Some ''y'') (Some ''x'') = Inr (4 / 3)"
proof -
  have "cov pair_b_store (Some ''y'') (Some ''x'') = Inr (4 / 3)"
    by (simp add: store_defs accessor_defs)
  with cov_symmetric [of pair_b_store "Some ''x''" "Some ''y''"] show ?thesis by simp
qed

text \<open>
  \<^bold>\<open>C7\<close>.  With the argument \<open>None\<close> the accessors return the constants of a
  denominator 1, for every store: the mean is 1, the variance is 0, and the covariance
  of anything with \<open>None\<close> is 0, without any lookup.
\<close>

theorem none_conventions:
  "mean s None = Inr 1 \<and> var s None = Inr 0 \<and> cov s x None = Inr 0"
  by (simp add: mean_def var_def cov_def)



lemma spec_mean_commute: "spec_mean n1 n2 m1 m2 = spec_mean n2 n1 m2 m1"
  by (simp add: spec_mean_def add.commute)

lemma spec_variance_commute: "spec_variance n1 n2 v1 v2 m1 m2 = spec_variance n2 n1 v2 v1 m2 m1"
  by (simp add: spec_variance_def add.commute power2_commute [of m1 m2] mult.commute
      mult.left_commute)

lemma spec_covariance_commute:
  "spec_covariance n1 n2 c1 c2 ma1 ma2 mb1 mb2 = spec_covariance n2 n1 c2 c1 ma2 ma1 mb2 mb1"
proof -
  have "(ma1 - ma2) * (mb1 - mb2) = (ma2 - ma1) * (mb2 - mb1)"
    by (simp add: algebra_simps)
  then show ?thesis
    by (simp add: spec_covariance_def add.commute mult.commute mult.left_commute)
qed

lemma graph_set_eq:
  assumes "set ks = set ks'" and "\<forall>k\<in>set ks. g k = g' k"
  shows "dict_eq (map (\<lambda>k. (k, g k)) ks) (map (\<lambda>k. (k, g' k)) ks')"
  using assms by (auto simp: dict_eq_def)

lemma dict_eq_getitem:
  assumes "distinct (keys d)" and "distinct (keys e)" and "dict_eq d e"
  shows "getitem d k = getitem e k"
proof -
  have "map_of d = map_of e"
    using assms map_of_inject_set [of d e] by (simp add: keys_def dict_eq_def)
  then show ?thesis by (simp add: getitem_def)
qed

lemma spec_merge_commute:
  assumes pre: "merge_pre a b"
  shows "aggr_eq (spec_merge a b) (spec_merge b a)"
proof -
  have km: "set (keys (mean_attr a)) = set (keys (mean_attr b))"
    and kv: "set (keys (var_attr a)) = set (keys (var_attr b))"
    and kc: "set (keys (cov_attr a)) = set (keys (cov_attr b))"
    using pre by (simp_all add: merge_pre_def)
  have "count_attr (spec_merge a b) = count_attr (spec_merge b a)"
    by (simp add: spec_merge_def add.commute)
  moreover have "dict_eq (mean_attr (spec_merge a b)) (mean_attr (spec_merge b a))"
    unfolding spec_merge_def Aggregates.simps
    by (rule graph_set_eq [OF km]) (simp add: merged_mean_def spec_mean_commute)
  moreover have "dict_eq (var_attr (spec_merge a b)) (var_attr (spec_merge b a))"
    unfolding spec_merge_def Aggregates.simps
    by (rule graph_set_eq [OF kv]) (simp add: merged_var_def spec_variance_commute)
  moreover have "dict_eq (cov_attr (spec_merge a b)) (cov_attr (spec_merge b a))"
    unfolding spec_merge_def Aggregates.simps
    by (rule graph_set_eq [OF kc]) (simp add: merged_cov_def spec_covariance_commute)
  ultimately show ?thesis by (simp add: aggr_eq_def)
qed

lemma spec_merge_distinct:
  assumes "merge_pre a b"
  shows "distinct (keys (mean_attr (spec_merge a b)))"
    and "distinct (keys (var_attr (spec_merge a b)))"
    and "distinct (keys (cov_attr (spec_merge a b)))"
  using assms
  by (simp_all add: merge_pre_def well_formed_def canonical_keys_def spec_merge_def
      keys_def comp_def)

lemma merge_pre_uncovered:
  "merge_pre (aggr_init (Some 3) [] [(''x'', 1)] []) (aggr_init (Some 4) [] [(''x'', 5 / 3)] [])"
  by (simp add: merge_pre_def well_formed_def canonical_keys_def keys_def aggr_init_def)

text \<open>
  \<^bold>\<open>C8\<close>.  The merge is commutative in exact arithmetic.  For two stores that
  satisfy the precondition of a merge, \<open>a + b\<close> and \<open>b + a\<close> both return a store; the
  two stores are equal as Python compares them (the same count, the same items in each
  dictionary), and every accessor returns the same on both.  The exception is a pair of
  stores in which a variable with a variance or a covariance has no mean: then both
  merges raise \<open>KeyError\<close>.
\<close>

theorem add_commutative:
  assumes "merge_pre a b"
  shows "if covered a
    then \<exists>r1 r2. aggr_add a b = Inr r1 \<and> aggr_add b a = Inr r2 \<and> aggr_eq r1 r2 \<and>
      count r1 = count r2 \<and> (\<forall>k. mean r1 k = mean r2 k) \<and> (\<forall>k. var r1 k = var r2 k) \<and>
      (\<forall>k l. cov r1 k l = cov r2 k l)
    else aggr_add a b = Inl KeyError \<and> aggr_add b a = Inl KeyError"
proof (cases "covered a")
  case False
  have pre': "merge_pre b a" by (rule merge_pre_sym [OF assms])
  have "\<not> covered b" using False covered_sym [OF assms] by simp
  then show ?thesis using False add_explicit [OF assms] add_explicit [OF pre'] by simp
next
  case True
  let ?r1 = "spec_merge a b" and ?r2 = "spec_merge b a"
  have pre': "merge_pre b a" by (rule merge_pre_sym [OF assms])
  have cb: "covered b" using True covered_sym [OF assms] by simp
  have r1: "aggr_add a b = Inr ?r1" by (rule add_refines_spec [OF assms True])
  have r2: "aggr_add b a = Inr ?r2" by (rule add_refines_spec [OF pre' cb])
  have eq: "aggr_eq ?r1 ?r2" by (rule spec_merge_commute [OF assms])
  have c: "count ?r1 = count ?r2" using eq by (simp add: aggr_eq_def count_def)
  have m: "mean ?r1 k = mean ?r2 k" for k
  proof (cases k)
    case None
    then show ?thesis by (simp add: mean_def)
  next
    case (Some x)
    have "getitem (mean_attr ?r1) x = getitem (mean_attr ?r2) x"
      using spec_merge_distinct(1) [OF assms] spec_merge_distinct(1) [OF pre'] eq
      by (intro dict_eq_getitem) (simp_all add: aggr_eq_def)
    then show ?thesis by (simp add: mean_def Some)
  qed
  have v: "var ?r1 k = var ?r2 k" for k
  proof (cases k)
    case None
    then show ?thesis by (simp add: var_def)
  next
    case (Some x)
    have "getitem (var_attr ?r1) x = getitem (var_attr ?r2) x"
      using spec_merge_distinct(2) [OF assms] spec_merge_distinct(2) [OF pre'] eq
      by (intro dict_eq_getitem) (simp_all add: aggr_eq_def)
    then show ?thesis by (simp add: var_def Some)
  qed
  have cv: "cov ?r1 k l = cov ?r2 k l" for k l
  proof -
    have "getitem (cov_attr ?r1) p = getitem (cov_attr ?r2) p" for p
      using spec_merge_distinct(3) [OF assms] spec_merge_distinct(3) [OF pre'] eq
      by (intro dict_eq_getitem) (simp_all add: aggr_eq_def)
    then show ?thesis by (simp add: cov_def)
  qed
  from r1 r2 eq c m v cv have "\<exists>r1 r2. aggr_add a b = Inr r1 \<and> aggr_add b a = Inr r2 \<and>
      aggr_eq r1 r2 \<and> count r1 = count r2 \<and> (\<forall>k. mean r1 k = mean r2 k) \<and>
      (\<forall>k. var r1 k = var r2 k) \<and> (\<forall>k l. cov r1 k l = cov r2 k l)"
    by blast
  then show ?thesis using True by simp
qed

theorem add_commutative_witness:
  "merge_pre pair_a_store pair_b_store \<and> covered pair_a_store \<and>
   aggr_add pair_a_store pair_b_store =
     Inr \<lparr>count_attr = Some 7, mean_attr = [(''x'', 4), (''y'', 2)],
          var_attr = [(''x'', 14 / 3), (''y'', 1)], cov_attr = [((''x'', ''y''), 5 / 6)]\<rparr> \<and>
   aggr_add pair_b_store pair_a_store =
     Inr \<lparr>count_attr = Some 7, mean_attr = [(''y'', 2), (''x'', 4)],
          var_attr = [(''y'', 1), (''x'', 14 / 3)], cov_attr = [((''x'', ''y''), 5 / 6)]\<rparr> \<and>
   aggr_eq
     \<lparr>count_attr = Some 7, mean_attr = [(''x'', 4), (''y'', 2)],
          var_attr = [(''x'', 14 / 3), (''y'', 1)], cov_attr = [((''x'', ''y''), 5 / 6)]\<rparr>
     \<lparr>count_attr = Some 7, mean_attr = [(''y'', 2), (''x'', 4)],
          var_attr = [(''y'', 1), (''x'', 14 / 3)], cov_attr = [((''x'', ''y''), 5 / 6)]\<rparr> \<and>
   merge_pre (aggr_init (Some 3) [] [(''x'', 1)] []) (aggr_init (Some 4) [] [(''x'', 5 / 3)] []) \<and>
   \<not> covered (aggr_init (Some 3) [] [(''x'', 1)] []) \<and>
   aggr_add (aggr_init (Some 3) [] [(''x'', 1)] []) (aggr_init (Some 4) [] [(''x'', 5 / 3)] [])
     = Inl KeyError \<and>
   aggr_add (aggr_init (Some 4) [] [(''x'', 5 / 3)] []) (aggr_init (Some 3) [] [(''x'', 1)] [])
     = Inl KeyError"
proof -
  have ab: "aggr_add pair_a_store pair_b_store =
     Inr \<lparr>count_attr = Some 7, mean_attr = [(''x'', 4), (''y'', 2)],
          var_attr = [(''x'', 14 / 3), (''y'', 1)], cov_attr = [((''x'', ''y''), 5 / 6)]\<rparr>"
    by (simp add: eval_defs store_defs accessor_defs)
  have ba: "aggr_add pair_b_store pair_a_store =
     Inr \<lparr>count_attr = Some 7, mean_attr = [(''y'', 2), (''x'', 4)],
          var_attr = [(''y'', 1), (''x'', 14 / 3)], cov_attr = [((''x'', ''y''), 5 / 6)]\<rparr>"
    by (simp add: eval_defs store_defs accessor_defs)
  have u: "\<not> covered (aggr_init (Some 3) [] [(''x'', 1)] [])"
    by (simp add: covered_def keys_def aggr_init_def)
  from add_commutative [OF merge_pre_pairs] covered_pair_a ab ba
  have "aggr_eq
     \<lparr>count_attr = Some 7, mean_attr = [(''x'', 4), (''y'', 2)],
          var_attr = [(''x'', 14 / 3), (''y'', 1)], cov_attr = [((''x'', ''y''), 5 / 6)]\<rparr>
     \<lparr>count_attr = Some 7, mean_attr = [(''y'', 2), (''x'', 4)],
          var_attr = [(''y'', 1), (''x'', 14 / 3)], cov_attr = [((''x'', ''y''), 5 / 6)]\<rparr>"
    by auto
  moreover from add_commutative [OF merge_pre_uncovered] u
  have "aggr_add (aggr_init (Some 3) [] [(''x'', 1)] []) (aggr_init (Some 4) [] [(''x'', 5 / 3)] [])
     = Inl KeyError \<and>
   aggr_add (aggr_init (Some 4) [] [(''x'', 5 / 3)] []) (aggr_init (Some 3) [] [(''x'', 1)] [])
     = Inl KeyError"
    by simp
  ultimately show ?thesis
    using merge_pre_pairs covered_pair_a ab ba merge_pre_uncovered u by simp
qed

text \<open>
  \<^bold>\<open>C10\<close>.  The covariance keys of a store built by \<open>__init__\<close>, and so of every store
  returned by \<open>filter\<close> or \<open>__add__\<close>, are canonical: distinct sorted pairs, no two
  of which denote the same unordered pair.  When the dictionary given to \<open>__init__\<close>
  has both \<open>(k1, k2)\<close> and \<open>(k2, k1)\<close> as keys, the store has fewer covariances than
  the dictionary and returns one of the two values for the pair; given these two items
  only, it keeps one entry, with the value of the second item.
\<close>

theorem canonical_key_invariant:
  "canonical_keys (cov_attr (aggr_init c m v cv)) \<and>
   (aggr_filter s has_count mean_cols var_cols cov_cols = Inr r \<longrightarrow> canonical_keys (cov_attr r)) \<and>
   (aggr_add a b = Inr r' \<longrightarrow> canonical_keys (cov_attr r')) \<and>
   (distinct (keys cv') \<and> ((k1, k2), x) \<in> set cv' \<and> ((k2, k1), y) \<in> set cv' \<and> k1 \<noteq> k2 \<longrightarrow>
      length (cov_attr (aggr_init c' m' v' cv')) < length cv' \<and>
      (cov (aggr_init c' m' v' cv') (Some k1) (Some k2) = Inr x \<or>
       cov (aggr_init c' m' v' cv') (Some k1) (Some k2) = Inr y)) \<and>
   (k1 \<noteq> k2 \<longrightarrow>
      cov_attr (aggr_init c' m' v' [((k1, k2), x), ((k2, k1), y)]) = [(sorted_tuple k1 k2, y)])"
proof -
  have i: "canonical_keys (cov_attr (aggr_init c m v cv))" for c m v cv
    by (simp add: aggr_init_def init_canonical_keys)
  have f: "canonical_keys (cov_attr r)"
    if "aggr_filter s has_count mean_cols var_cols cov_cols = Inr r"
    using filter_is_init [OF that] i by auto
  have ad: "canonical_keys (cov_attr r')" if "aggr_add a b = Inr r'"
    using add_is_init [OF that] i by auto
  have two: "cov_attr (aggr_init c' m' v' [((k1, k2), x), ((k2, k1), y)]) = [(sorted_tuple k1 k2, y)]"
    using less_asym [of k1 k2] by (auto simp: aggr_init_def setitem_def sorted_tuple_def)
  show ?thesis
    using i f ad two init_collapse_length [of cv' k1 k2 x y c' m' v']
      init_collapse_value [of cv' k1 k2 x y c' m' v']
    by blast
qed

theorem canonical_key_invariant_witness:
  "canonical_keys (cov_attr pair_b_store) \<and>
   aggr_filter scenario_store False [''y''] [''x''] [(''y'', ''x'')] =
     Inr \<lparr>count_attr = Some 10, mean_attr = [(''y'', 4), (''x'', 2)],
          var_attr = [(''x'', 1)], cov_attr = [((''x'', ''y''), 1 / 2)]\<rparr> \<and>
   canonical_keys [((''x'', ''y''), 1 / 2)] \<and>
   aggr_add pair_b_store pair_a_store =
     Inr \<lparr>count_attr = Some 7, mean_attr = [(''y'', 2), (''x'', 4)],
          var_attr = [(''y'', 1), (''x'', 14 / 3)], cov_attr = [((''x'', ''y''), 5 / 6)]\<rparr> \<and>
   canonical_keys [((''x'', ''y''), 5 / 6)] \<and>
   distinct (keys [((''y'', ''x''), 1 :: rat), ((''x'', ''y''), 2)]) \<and> ''y'' \<noteq> ''x'' \<and>
   length (cov_attr (aggr_init None [] [] [((''y'', ''x''), 1), ((''x'', ''y''), 2)])) < 2 \<and>
   cov (aggr_init None [] [] [((''y'', ''x''), 1), ((''x'', ''y''), 2)]) (Some ''y'') (Some ''x'')
     = Inr 2 \<and>
   cov_attr (aggr_init None [] [] [((''y'', ''x''), 1), ((''x'', ''y''), 2)])
     = [((''x'', ''y''), 2)]"
proof -
  let ?f = "\<lparr>count_attr = Some 10, mean_attr = [(''y'', 4), (''x'', 2)],
          var_attr = [(''x'', 1)], cov_attr = [((''x'', ''y''), 1 / 2)]\<rparr>"
  let ?r = "\<lparr>count_attr = Some 7, mean_attr = [(''y'', 2), (''x'', 4)],
          var_attr = [(''y'', 1), (''x'', 14 / 3)], cov_attr = [((''x'', ''y''), 5 / 6)]\<rparr>"
  let ?cv = "[((''y'', ''x''), 1 :: rat), ((''x'', ''y''), 2)]"
  have hf: "aggr_filter scenario_store False [''y''] [''x''] [(''y'', ''x'')] = Inr ?f"
    by (simp add: eval_defs store_defs accessor_defs)
  have ha: "aggr_add pair_b_store pair_a_store = Inr ?r"
    by (simp add: eval_defs store_defs accessor_defs)
  have hc: "distinct (keys ?cv)" "((''y'', ''x''), 1) \<in> set ?cv" "((''x'', ''y''), 2) \<in> set ?cv"
    "''y'' \<noteq> ''x''"
    by (simp_all add: keys_def)
  have st: "sorted_tuple ''y'' ''x'' = (''x'', ''y'')" by (simp add: sorted_tuple_def)
  have cv: "cov (aggr_init None [] [] ?cv) (Some ''y'') (Some ''x'') = Inr 2"
    by (simp add: store_defs accessor_defs)
  note t = canonical_key_invariant [where c = "Some 4"
      and m = "[(''y'', 2), (''x'', 11 / 2)]" and v = "[(''y'', 4 / 3), (''x'', 5 / 3)]"
      and cv = "[((''y'', ''x''), 4 / 3)]"
      and s = scenario_store and has_count = False and mean_cols = "[''y'']"
      and var_cols = "[''x'']" and cov_cols = "[(''y'', ''x'')]" and r = ?f
      and a = pair_b_store and b = pair_a_store and r' = ?r
      and cv' = ?cv and ?k1.0 = "''y''" and ?k2.0 = "''x''" and x = 1 and y = 2
      and c' = None and m' = "[]" and v' = "[]"]
  from t hf ha hc cv st show ?thesis
    by (simp add: pair_b_store_def)
qed

end
